theory Spec2Isabelle
  imports Main "HOL-Library.Word"
begin

section \<open>C strings and the name comparison\<close>

text \<open>
  A C string is modelled by the bytes of its buffer, from the pointer up to and including
  the terminating NUL: a pointer \<open>s\<close> is the list of the bytes still ahead of it, \<open>s++\<close>
  is the tail and \<open>*s\<close> is the head. A read at the end of the list is a read past the end of the
  buffer, and the model then returns \<open>None\<close>. Identifiers of the header that begin with an
  underscore carry the prefix \<open>u_\<close> here.
\<close>

abbreviation NUL :: char where
  "NUL \<equiv> CHR 0x00"

definition cstr :: "string \<Rightarrow> string" where
  "cstr s = s @ [NUL]"

text \<open>The value of a plain \<open>char\<close> in a comparison: signed, as on the x86-64 ABI.\<close>

definition char_val :: "char \<Rightarrow> int" where
  "char_val c = sint (of_char c :: 8 word)"

fun u_micro_tests_strcmp :: "string \<Rightarrow> string \<Rightarrow> int option" where
  "u_micro_tests_strcmp s1 [] = None"
| "u_micro_tests_strcmp [] (c2 # r2) = None"
| "u_micro_tests_strcmp (c1 # r1) (c2 # r2) =
     (if c2 \<noteq> NUL \<and> c1 \<noteq> NUL then
        (if c1 \<noteq> c2 then Some (if char_val c1 > char_val c2 then 1 else - 1)
         else u_micro_tests_strcmp r1 r2)
      else Some (if c2 = NUL \<and> c1 = NUL then 0 else 1))"

text \<open>The call on two NUL-terminated strings with the contents \<open>a\<close> and \<open>b\<close>.\<close>

definition strcmp_names :: "string \<Rightarrow> string \<Rightarrow> int option" where
  "strcmp_names a b = u_micro_tests_strcmp (cstr a) (cstr b)"


section \<open>Descriptors, settings and the catalog section\<close>

type_synonym c_int = "32 word"
type_synonym c_long = "64 word"

text \<open>
  A test callback \<open>int (*)(void)\<close> may read and write the program's memory: it is a function
  from the state of the program \<open>'s\<close> to its return value and the state it leaves.
\<close>

record 's MicroTest =
  marker :: "32 word"
  test_suite :: string
  test_name :: string
  function_name :: string
  file_name :: string
  line_number :: "32 word"
  function_pointer :: "'s \<Rightarrow> c_int \<times> 's"

text \<open>A \<open>const char *\<close> setting is \<open>None\<close> for \<open>NULL\<close>.\<close>

record MicroTests =
  run_suite :: "string option"
  run_test :: "string option"
  run_multithreaded :: bool
  thread_number :: c_int
  show_list :: bool
  print_banner :: bool
  print_help :: bool
  debug :: bool
  quiet :: bool

definition sentinel :: "32 word" where
  "sentinel = 0xDEADBEAF"

text \<open>
  The linker section \<open>.micro_tests\<close>: the addresses of its two boundary symbols, and the
  slot read by \<open>test[i]\<close>. The struct is packed; with 8-byte pointers its size is
  \<open>4 + 4 * 8 + 4 + 8 = 48\<close>. The linker script places the stop symbol at or after the start
  symbol.
\<close>

record 's catalog =
  micro_tests_start :: nat
  micro_tests_stop :: nat
  test_at :: "nat \<Rightarrow> 's MicroTest"

definition sizeof_MicroTest :: nat where
  "sizeof_MicroTest = 48"

definition micro_tests_count :: "'s catalog \<Rightarrow> nat" where
  "micro_tests_count sec = (micro_tests_stop sec - micro_tests_start sec) div sizeof_MicroTest"

text \<open>A section that holds exactly the given slots, for concrete runs.\<close>

definition section_of :: "'s MicroTest list \<Rightarrow> 's catalog" where
  "section_of ts = \<lparr> micro_tests_start = 0,
                     micro_tests_stop = sizeof_MicroTest * length ts,
                     test_at = (\<lambda>i. ts ! i) \<rparr>"

text \<open>
  The two filter tests that the three scanning loops repeat before they act on a slot:
  the slot is passed over (\<open>continue\<close>) when a filter is set and differs from its name.
\<close>

definition filtered_out :: "MicroTests \<Rightarrow> 's MicroTest \<Rightarrow> bool" where
  "filtered_out micro_tests current =
     (if run_suite micro_tests \<noteq> None \<and>
         strcmp_names (the (run_suite micro_tests)) (test_suite current) \<noteq> Some 0 then True
      else if run_test micro_tests \<noteq> None \<and>
         strcmp_names (the (run_test micro_tests)) (test_name current) \<noteq> Some 0 then True
      else False)"

section \<open>The state of a run and its output\<close>

datatype stream = Stdout | Stderr

text \<open>
  The state threaded through a run: the program state the callbacks work on, the text
  written so far (one entry for each \<open>printf\<close> or \<open>fprintf\<close> call), the global
  \<open>micro_tests_current\<close>, and two ghost traces: for each callback invocation the index of
  its slot and the value it returned, and the indices of the slots that listing mode printed.
  The cursor is an \<open>int\<close> that only counts upward from 0 and stays below the slot count; it
  is a natural number here.
\<close>

record 's run_state =
  world :: 's
  out_log :: "(stream \<times> string) list"
  calls :: "(nat \<times> c_int) list"
  listed :: "nat list"
  micro_tests_current :: nat

definition emit :: "stream \<Rightarrow> string \<Rightarrow> 's run_state \<Rightarrow> 's run_state" where
  "emit f txt st = st\<lparr> out_log := out_log st @ [(f, txt)] \<rparr>"

abbreviation nl :: char where
  "nl \<equiv> CHR 0x0A"

text \<open>The conversions \<open>%d\<close>, \<open>%ld\<close>, \<open>%lu\<close> and (as glibc prints it) \<open>%p\<close>.\<close>

definition digit_char :: "nat \<Rightarrow> char" where
  "digit_char d = ''0123456789abcdef'' ! d"

fun show_nat_base :: "nat \<Rightarrow> nat \<Rightarrow> string" where
  "show_nat_base b n =
     (if b < 2 \<or> n < b then [digit_char n]
      else show_nat_base b (n div b) @ [digit_char (n mod b)])"

definition show_int :: "int \<Rightarrow> string" where
  "show_int i = (if i < 0 then CHR ''-'' # show_nat_base 10 (nat (- i)) else show_nat_base 10 (nat i))"

definition show_ptr :: "nat \<Rightarrow> string" where
  "show_ptr a = (if a = 0 then ''(nil)'' else ''0x'' @ show_nat_base 16 a)"

definition failed_line :: "'s MicroTest \<Rightarrow> string" where
  "failed_line current =
     ''suite: '' @ test_suite current @ '', test: '' @ test_name current @ '' FAILED'' @ [nl]"

definition ok_line :: "'s MicroTest \<Rightarrow> string" where
  "ok_line current =
     ''suite: '' @ test_suite current @ '', test: '' @ test_name current @ '' OK'' @ [nl]"

definition thread_failed_line :: "'s MicroTest \<Rightarrow> string" where
  "thread_failed_line micro_test =
     ''suite: '' @ test_suite micro_test @ '' test: '' @ test_name micro_test @ '' FAILED'' @ [nl]"

definition list_line :: "'s MicroTest \<Rightarrow> string" where
  "list_line current =
     ''suite: '' @ test_suite current @ '', test: '' @ test_name current @ [nl]"

text \<open>The summary of the sequential runner, from the value of \<open>out\<close> at the end of the scan.\<close>

definition summary_line :: "c_int \<Rightarrow> string" where
  "summary_line out =
     [nl] @ ''Tests done: '' @ show_int (sint (- out)) @ '' '' @
     (if out = - 1 then ''test'' else ''tests'') @ '' failed'' @ [nl, nl]"

definition summary_line_mt :: "c_long \<Rightarrow> string" where
  "summary_line_mt ret =
     [nl] @ ''Tests done: '' @ show_int (sint (- ret)) @ '' '' @
     (if ret = - 1 then ''test'' else ''tests'') @ '' failed'' @ [nl, nl]"


section \<open>The sequential runner and listing mode\<close>

text \<open>
  One iteration of the \<open>for\<close> loop of \<open>_micro_tests_run\<close> at index \<open>i\<close>, on the pair of
  the local \<open>out\<close> and the state. Signed overflow of \<open>out\<close> is undefined in C; the model
  wraps around, as two's complement hardware does.
\<close>

definition u_micro_tests_run_body ::
  "MicroTests \<Rightarrow> 's catalog \<Rightarrow> nat \<Rightarrow> c_int \<times> 's run_state \<Rightarrow> c_int \<times> 's run_state" where
  "u_micro_tests_run_body micro_tests sec i acc =
     (let out = fst acc; st = snd acc; current = test_at sec i in
      if marker current = sentinel then
        (if filtered_out micro_tests current then (out, st)
         else
           (let res = function_pointer current (world st);
                ret = fst res;
                st1 = st\<lparr> world := snd res, calls := calls st @ [(i, ret)] \<rparr>;
                st2 = (if ret <s 0 then emit Stderr (failed_line current) st1
                       else if \<not> quiet micro_tests then emit Stdout (ok_line current) st1
                       else st1)
            in (out + ret, st2)))
      else (out, st))"

function u_micro_tests_run_loop ::
  "MicroTests \<Rightarrow> 's catalog \<Rightarrow> nat \<Rightarrow> c_int \<times> 's run_state \<Rightarrow> c_int \<times> 's run_state" where
  "u_micro_tests_run_loop micro_tests sec i acc =
     (if i < micro_tests_count sec
      then u_micro_tests_run_loop micro_tests sec (i + 1) (u_micro_tests_run_body micro_tests sec i acc)
      else acc)"
  by pat_completeness auto
termination
  by (relation "measure (\<lambda>(micro_tests, sec, i, acc). micro_tests_count sec - i)") auto

declare u_micro_tests_run_loop.simps [simp del]

definition u_micro_tests_run :: "MicroTests \<Rightarrow> 's catalog \<Rightarrow> 's run_state \<Rightarrow> c_int \<times> 's run_state" where
  "u_micro_tests_run micro_tests sec st =
     (let acc = u_micro_tests_run_loop micro_tests sec 0 (0, st);
          out = fst acc;
          st1 = (if \<not> quiet micro_tests then emit Stdout (summary_line out) (snd acc) else snd acc)
      in (- out, st1))"

definition micro_tests_show_list_body :: "MicroTests \<Rightarrow> 's catalog \<Rightarrow> nat \<Rightarrow> 's run_state \<Rightarrow> 's run_state" where
  "micro_tests_show_list_body micro_tests sec i st =
     (let current = test_at sec i in
      if marker current = sentinel then
        (if filtered_out micro_tests current then st
         else emit Stdout (list_line current) (st\<lparr> listed := listed st @ [i] \<rparr>))
      else st)"

function micro_tests_show_list_loop :: "MicroTests \<Rightarrow> 's catalog \<Rightarrow> nat \<Rightarrow> 's run_state \<Rightarrow> 's run_state" where
  "micro_tests_show_list_loop micro_tests sec i st =
     (if i < micro_tests_count sec
      then micro_tests_show_list_loop micro_tests sec (i + 1) (micro_tests_show_list_body micro_tests sec i st)
      else st)"
  by pat_completeness auto
termination
  by (relation "measure (\<lambda>(micro_tests, sec, i, st). micro_tests_count sec - i)") auto

declare micro_tests_show_list_loop.simps [simp del]

definition micro_tests_show_list :: "MicroTests \<Rightarrow> 's catalog \<Rightarrow> 's run_state \<Rightarrow> 's run_state" where
  "micro_tests_show_list micro_tests sec st = micro_tests_show_list_loop micro_tests sec 0 st"

section \<open>The concurrent scheduler\<close>

text \<open>
  The scan of \<open>_micro_tests_get_next_test\<close> from index \<open>i\<close>: the index of the slot it
  returns a pointer to, or \<open>None\<close> for \<open>NULL\<close>. The function runs with the mutex held, so
  a call is one atomic step on the shared cursor.
\<close>

function get_next_scan :: "MicroTests \<Rightarrow> 's catalog \<Rightarrow> nat \<Rightarrow> nat option" where
  "get_next_scan micro_tests sec i =
     (if i < micro_tests_count sec then
        (let current = test_at sec i in
         if marker current = sentinel then
           (if filtered_out micro_tests current then get_next_scan micro_tests sec (i + 1)
            else Some i)
         else get_next_scan micro_tests sec (i + 1))
      else None)"
  by pat_completeness auto
termination
  by (relation "measure (\<lambda>(micro_tests, sec, i). micro_tests_count sec - i)") auto

declare get_next_scan.simps [simp del]

definition u_micro_tests_get_next_test ::
  "MicroTests \<Rightarrow> 's catalog \<Rightarrow> 's run_state \<Rightarrow> nat option \<times> 's run_state" where
  "u_micro_tests_get_next_test micro_tests sec st =
     (case get_next_scan micro_tests sec (micro_tests_current st) of
        Some i \<Rightarrow> (Some i, st\<lparr> micro_tests_current := micro_tests_current st + 1 \<rparr>)
      | None \<Rightarrow> (None, st))"

text \<open>
  The control state of one \<open>_micro_tests_thread\<close>: about to call
  \<open>_micro_tests_get_next_test\<close> with the local \<open>ret\<close>; at the head of the loop body with a
  claimed slot and \<open>ret\<close>; returned. A step is one claim, or the execution of one claimed
  callback together with its output line. The number of a worker stands for its
  \<open>pthread_self()\<close>.
\<close>

datatype worker = Claiming c_long | Holding nat c_long | Finished c_long

definition worker_step ::
  "MicroTests \<Rightarrow> 's catalog \<Rightarrow> nat \<Rightarrow> worker \<Rightarrow> 's run_state \<Rightarrow> worker \<times> 's run_state" where
  "worker_step micro_tests sec tid wk st =
     (case wk of
        Claiming ret \<Rightarrow>
          (let nxt = u_micro_tests_get_next_test micro_tests sec st in
           (case fst nxt of None \<Rightarrow> Finished ret | Some i \<Rightarrow> Holding i ret, snd nxt))
      | Holding i ret \<Rightarrow>
          (let micro_test = test_at sec i in
           if marker micro_test \<noteq> sentinel then (Finished (- 1), st)
           else
             (let st0 = (if debug micro_tests
                         then emit Stdout (''(thread '' @ show_nat_base 10 tid @ '') '') st else st);
                  res = function_pointer micro_test (world st0);
                  ret1 = ret + scast (fst res);
                  st1 = st0\<lparr> world := snd res, calls := calls st0 @ [(i, fst res)] \<rparr>;
                  st2 = (if ret1 <s 0 then emit Stderr (thread_failed_line micro_test) st1
                         else if \<not> quiet micro_tests then emit Stdout (ok_line micro_test) st1
                         else st1)
              in (Claiming ret1, st2)))
      | Finished r \<Rightarrow> (Finished r, st))"


fun worker_weight :: "worker \<Rightarrow> nat" where
  "worker_weight (Claiming ret) = 1"
| "worker_weight (Holding i ret) = 2"
| "worker_weight (Finished r) = 0"

text \<open>A worker that runs on its own from a control state until it returns.\<close>

function run_worker ::
  "MicroTests \<Rightarrow> 's catalog \<Rightarrow> nat \<Rightarrow> worker \<Rightarrow> 's run_state \<Rightarrow> c_long \<times> 's run_state" where
  "run_worker micro_tests sec tid (Finished r) st = (r, st)"
| "run_worker micro_tests sec tid (Claiming ret) st =
     (let nx = worker_step micro_tests sec tid (Claiming ret) st
      in run_worker micro_tests sec tid (fst nx) (snd nx))"
| "run_worker micro_tests sec tid (Holding i ret) st =
     (let nx = worker_step micro_tests sec tid (Holding i ret) st
      in run_worker micro_tests sec tid (fst nx) (snd nx))"
  by pat_completeness auto
termination
proof (relation "measure (\<lambda>(micro_tests, sec, tid, wk, st).
          2 * (micro_tests_count sec - micro_tests_current st) + worker_weight wk)", goal_cases)
  case 1
  show ?case by simp
next
  case (2 micro_tests sec tid ret st nx)
  have scan: "get_next_scan micro_tests sec i = Some j \<Longrightarrow> i < micro_tests_count sec" for i j
    by (subst (asm) get_next_scan.simps) (simp split: if_splits)
  show ?case
    using 2 scan [of "micro_tests_current st"]
    by (auto simp: worker_step_def u_micro_tests_get_next_test_def Let_def split: option.splits)
next
  case (3 micro_tests sec tid i ret st nx)
  then show ?case
    by (auto simp: worker_step_def Let_def emit_def)
qed

declare run_worker.simps [simp del]

text \<open>\<open>_micro_tests_thread\<close> from its entry: \<open>ret = 0\<close> and the first claim ahead.\<close>

definition u_micro_tests_thread ::
  "MicroTests \<Rightarrow> 's catalog \<Rightarrow> nat \<Rightarrow> 's run_state \<Rightarrow> c_long \<times> 's run_state" where
  "u_micro_tests_thread micro_tests sec tid st = run_worker micro_tests sec tid (Claiming 0) st"

text \<open>
  The workers between \<open>pthread_create\<close> and \<open>pthread_join\<close>: a schedule names, step by
  step, the worker that moves next. A name outside the pool moves nothing.
\<close>

fun run_schedule ::
  "MicroTests \<Rightarrow> 's catalog \<Rightarrow> nat list \<Rightarrow> worker list \<Rightarrow> 's run_state \<Rightarrow> worker list \<times> 's run_state" where
  "run_schedule micro_tests sec [] ws st = (ws, st)"
| "run_schedule micro_tests sec (k # sched) ws st =
     (if k < length ws then
        (let nx = worker_step micro_tests sec k (ws ! k) st
         in run_schedule micro_tests sec sched (ws[k := fst nx]) (snd nx))
      else run_schedule micro_tests sec sched ws st)"

text \<open>
  The join loop: the workers that have not returned when the schedule ends run to
  their return one after the other, and \<open>ret\<close> adds up what the workers return.
\<close>

fun join_workers ::
  "MicroTests \<Rightarrow> 's catalog \<Rightarrow> nat \<Rightarrow> worker list \<Rightarrow> c_long \<Rightarrow> 's run_state \<Rightarrow> c_long \<times> 's run_state" where
  "join_workers micro_tests sec k [] ret st = (ret, st)"
| "join_workers micro_tests sec k (wk # ws) ret st =
     (let fin = run_worker micro_tests sec k wk st
      in join_workers micro_tests sec (k + 1) ws (ret + fst fin) (snd fin))"

text \<open>
  \<open>_micro_tests_run_multithreaded\<close> under a schedule, for the runs in which
  \<open>pthread_mutex_init\<close>, the allocation and every \<open>pthread_create\<close> succeed. The
  \<open>long\<close> total is converted to the \<open>int\<close> that the function returns.
\<close>

definition u_micro_tests_run_multithreaded ::
  "MicroTests \<Rightarrow> 's catalog \<Rightarrow> nat list \<Rightarrow> 's run_state \<Rightarrow> c_int \<times> 's run_state" where
  "u_micro_tests_run_multithreaded micro_tests sec sched st =
     (let st1 = (if print_banner micro_tests
                 then emit Stdout (''Running multithreaded with '' @
                        show_int (sint (thread_number micro_tests)) @ '' threads.'' @ [nl, nl]) st
                 else st);
          pool = replicate (nat (sint (thread_number micro_tests))) (Claiming 0);
          ran = run_schedule micro_tests sec sched pool st1;
          joined = join_workers micro_tests sec 0 (fst ran) 0 (snd ran);
          ret = fst joined;
          st2 = (if \<not> quiet micro_tests then emit Stdout (summary_line_mt ret) (snd joined)
                 else snd joined)
      in (ucast ret, st2))"

section \<open>Arguments and the entry point\<close>

text \<open>
  \<open>atoi\<close> of the C library, on the contents of a string: white space, an optional sign,
  then decimal digits up to the first other character. The C standard leaves the result
  open when the value does not fit an \<open>int\<close>; the model follows glibc, where \<open>atoi\<close> is
  \<open>(int) strtol(s, NULL, 10)\<close>: \<open>strtol\<close> clamps the value to the range of \<open>long\<close>, and the
  conversion to \<open>int\<close> keeps the low 32 bits.
\<close>

definition isspace :: "char \<Rightarrow> bool" where
  "isspace c = (c = CHR '' '' \<or> c = CHR 0x09 \<or> c = CHR 0x0A \<or> c = CHR 0x0B \<or> c = CHR 0x0C \<or> c = CHR 0x0D)"

definition isdigit :: "char \<Rightarrow> bool" where
  "isdigit c = (48 \<le> (of_char c :: nat) \<and> (of_char c :: nat) \<le> 57)"

fun atoi_digits :: "int \<Rightarrow> string \<Rightarrow> int" where
  "atoi_digits acc [] = acc"
| "atoi_digits acc (c # cs) =
     (if isdigit c then atoi_digits (acc * 10 + (of_char c - 48)) cs else acc)"

definition strtol10 :: "string \<Rightarrow> int" where
  "strtol10 s =
     (let s1 = dropWhile isspace s;
          neg = (case s1 of [] \<Rightarrow> False | c # r \<Rightarrow> c = CHR ''-'');
          s2 = (case s1 of [] \<Rightarrow> [] | c # r \<Rightarrow> if c = CHR ''-'' \<or> c = CHR ''+'' then r else s1);
          v = (if neg then - atoi_digits 0 s2 else atoi_digits 0 s2)
      in if v < - (2 ^ 63) then - (2 ^ 63) else if 2 ^ 63 - 1 < v then 2 ^ 63 - 1 else v)"

definition atoi :: "string \<Rightarrow> c_int" where
  "atoi s = word_of_int (strtol10 s)"

definition micro_tests_defaults :: MicroTests where
  "micro_tests_defaults =
     \<lparr> run_suite = None, run_test = None, run_multithreaded = False, thread_number = 4,
       show_list = False, print_banner = True, print_help = False, debug = False, quiet = False \<rparr>"

text \<open>
  The loop of \<open>micro_tests_parse_args\<close> on the arguments from \<open>argv[i]\<close> on. The first
  parameter says whether \<open>MICRO_TESTS_MULTITHREADED\<close> is defined. The result is the \<open>int\<close>
  returned, the settings and the state.
\<close>

fun parse_args_loop ::
  "bool \<Rightarrow> string list \<Rightarrow> MicroTests \<Rightarrow> 's run_state \<Rightarrow> c_int \<times> MicroTests \<times> 's run_state" where
  "parse_args_loop mt [] micro_tests st = (0, micro_tests, st)"
| "parse_args_loop mt (a # rest) micro_tests st =
     (if strcmp_names a ''--help'' = Some 0 \<or> strcmp_names a ''-h'' = Some 0 then
        parse_args_loop mt rest (micro_tests\<lparr> print_help := True \<rparr>) st
      else if strcmp_names a ''--list'' = Some 0 then
        parse_args_loop mt rest (micro_tests\<lparr> show_list := True \<rparr>) st
      else if strcmp_names a ''--suite'' = Some 0 then
        (case rest of
           [] \<Rightarrow> (- 1, micro_tests, emit Stderr (''Usage: --suite <suite-name>'' @ [nl]) st)
         | v # rest1 \<Rightarrow> parse_args_loop mt rest1 (micro_tests\<lparr> run_suite := Some v \<rparr>) st)
      else if strcmp_names a ''--test'' = Some 0 then
        (case rest of
           [] \<Rightarrow> (- 1, micro_tests, emit Stderr (''Usage: --test <test-name>'' @ [nl]) st)
         | v # rest1 \<Rightarrow> parse_args_loop mt rest1 (micro_tests\<lparr> run_test := Some v \<rparr>) st)
      else if strcmp_names a ''--no-banner'' = Some 0 then
        parse_args_loop mt rest (micro_tests\<lparr> print_banner := False \<rparr>) st
      else if strcmp_names a ''--debug'' = Some 0 then
        parse_args_loop mt rest (micro_tests\<lparr> debug := True \<rparr>) st
      else if strcmp_names a ''--quiet'' = Some 0 then
        parse_args_loop mt rest (micro_tests\<lparr> quiet := True \<rparr>) st
      else if mt \<and> strcmp_names a ''--multithreaded'' = Some 0 then
        parse_args_loop mt rest (micro_tests\<lparr> run_multithreaded := True \<rparr>) st
      else if mt \<and> strcmp_names a ''--threads'' = Some 0 then
        (case rest of
           [] \<Rightarrow> (- 1, micro_tests, emit Stderr (''Usage: --threads <n>'' @ [nl]) st)
         | v # rest1 \<Rightarrow>
             (let n = atoi v in
              if n \<le>s 0 then
                (- 1, micro_tests\<lparr> thread_number := n \<rparr>,
                 emit Stderr (''Error: Thread number '' @ v @
                              '' must be an integer and positive number'') st)
              else parse_args_loop mt rest1 (micro_tests\<lparr> thread_number := n \<rparr>) st))
      else
        (- 1, micro_tests,
         emit Stdout (''Try --help or -h'' @ [nl])
           (emit Stdout (''Unrecognized argument: '' @ a @ [nl]) st)))"

definition micro_tests_parse_args ::
  "bool \<Rightarrow> string list \<Rightarrow> 's run_state \<Rightarrow> c_int \<times> MicroTests \<times> 's run_state" where
  "micro_tests_parse_args mt argv st = parse_args_loop mt (drop 1 argv) micro_tests_defaults st"

definition micro_tests_print_banner :: "'s run_state \<Rightarrow> 's run_state" where
  "micro_tests_print_banner st =
     emit Stdout (''Running tests...'' @ [nl, nl])
       (emit Stdout [nl]
         (emit Stdout (''-------------'' @ [nl])
           (emit Stdout (''micro-tests.h'' @ [nl])
             (emit Stdout [nl] st))))"

definition micro_tests_print_help :: "bool \<Rightarrow> 's run_state \<Rightarrow> 's run_state" where
  "micro_tests_print_help mt st =
     (let st1 = emit Stdout (''  --test  <test-name>   run a specific test'' @ [nl])
                 (emit Stdout (''  --suite <suite-name>  run a specific suite'' @ [nl])
                   (emit Stdout (''  --list                list tests'' @ [nl])
                     (emit Stdout (''  --help,-h             show help message'' @ [nl])
                       (emit Stdout [nl]
                         (emit Stdout (''micro-tests usage:'' @ [nl]) st)))));
          st2 = (if mt then
                   emit Stdout (''  --threads <n>         specify the number n of threads (use with --multithreaded)'' @ [nl])
                     (emit Stdout (''  --multithreaded       run tests on multiple threads'' @ [nl]) st1)
                 else st1)
      in emit Stdout (''  --quiet               do not print OK results'' @ [nl])
           (emit Stdout (''  --debug               additional debug prints'' @ [nl])
             (emit Stdout (''  --no-banner           do not print the banner'' @ [nl]) st2)))"

text \<open>\<open>micro_tests_run\<close>. The schedule only matters to the concurrent runner.\<close>

definition micro_tests_run ::
  "bool \<Rightarrow> nat list \<Rightarrow> 's catalog \<Rightarrow> string list \<Rightarrow> 's run_state \<Rightarrow> c_int \<times> 's run_state" where
  "micro_tests_run mt sched sec argv st =
     (case micro_tests_parse_args mt argv st of
        (r, micro_tests, st1) \<Rightarrow>
          if r <s 0 then (1, st1)
          else if print_help micro_tests then (0, micro_tests_print_help mt st1)
          else if show_list micro_tests then (0, micro_tests_show_list micro_tests sec st1)
          else
            (let st2 = (if print_banner micro_tests then micro_tests_print_banner st1 else st1);
                 st3 = (if debug micro_tests
                        then emit Stdout (''debug: __micro_tests_start='' @
                               show_ptr (micro_tests_start sec) @ '', __micro_tests_stop='' @
                               show_ptr (micro_tests_stop sec) @ [nl]) st2
                        else st2)
             in if mt \<and> run_multithreaded micro_tests \<and> 0 <s thread_number micro_tests
                then u_micro_tests_run_multithreaded micro_tests sec sched st3
                else u_micro_tests_run micro_tests sec st3))"


section \<open>Notions used in the statements\<close>

text \<open>A slot on which the scanning loops act: its marker is the sentinel and no filter excludes it.\<close>

definition selected :: "MicroTests \<Rightarrow> 's catalog \<Rightarrow> nat \<Rightarrow> bool" where
  "selected micro_tests sec i =
     (marker (test_at sec i) = sentinel \<and> \<not> filtered_out micro_tests (test_at sec i))"

text \<open>What the sequential runner prints for one executed test, from the slot and the value returned.\<close>

definition status_lines :: "MicroTests \<Rightarrow> 's catalog \<Rightarrow> nat \<times> c_int \<Rightarrow> (stream \<times> string) list" where
  "status_lines micro_tests sec call =
     (if snd call <s 0 then [(Stderr, failed_line (test_at sec (fst call)))]
      else if quiet micro_tests then []
      else [(Stdout, ok_line (test_at sec (fst call)))])"

text \<open>
  The descriptor that \<open>TEST(suite, name)\<close> places in the section, with the callback given as
  a function, and the callback that returns \<open>r\<close> and touches nothing.
\<close>

definition TEST :: "string \<Rightarrow> string \<Rightarrow> ('s \<Rightarrow> c_int \<times> 's) \<Rightarrow> 's MicroTest" where
  "TEST suite name callback =
     \<lparr> marker = 0xDEADBEAF, test_suite = suite, test_name = name,
       function_name = suite @ ''_'' @ name, file_name = ''test.c'', line_number = 1,
       function_pointer = callback \<rparr>"

definition returning :: "c_int \<Rightarrow> unit \<Rightarrow> c_int \<times> unit" where
  "returning r w = (r, w)"

text \<open>The state when \<open>main\<close> is entered: nothing printed, the cursor at its initial value 0.\<close>

definition at_start :: "unit run_state" where
  "at_start = \<lparr> world = (), out_log = [], calls = [], listed = [], micro_tests_current = 0 \<rparr>"

text \<open>
  The callbacks of the given slots called one after the other, each on the program state
  that the one before has left: the invocations with the values returned, and the program
  state at the end.
\<close>

fun invoke_in_order :: "'s catalog \<Rightarrow> nat list \<Rightarrow> 's \<Rightarrow> (nat \<times> c_int) list \<times> 's" where
  "invoke_in_order sec [] w = ([], w)"
| "invoke_in_order sec (i # js) w =
     (let res = function_pointer (test_at sec i) w;
          later = invoke_in_order sec js (snd res)
      in ((i, fst res) # fst later, snd later))"

text \<open>
  A callback that records its own invocation: it appends its mark to a log kept in the
  program state and returns \<open>r\<close>. The state at the entry of \<open>main\<close> with a given program
  state.
\<close>

definition recording :: "nat \<Rightarrow> c_int \<Rightarrow> nat list \<Rightarrow> c_int \<times> nat list" where
  "recording k r w = (r, w @ [k])"

definition started_with :: "'s \<Rightarrow> 's run_state" where
  "started_with w = \<lparr> world = w, out_log = [], calls = [], listed = [], micro_tests_current = 0 \<rparr>"

section \<open>The name comparison\<close>

lemma strcmp_cstr_defined: "u_micro_tests_strcmp (s1 @ [NUL]) (s2 @ [NUL]) \<noteq> None"
  by (induction s1 arbitrary: s2; case_tac s2) auto

lemma strcmp_cstr_zero:
  "NUL \<notin> set s1 \<Longrightarrow> NUL \<notin> set s2 \<Longrightarrow>
   (u_micro_tests_strcmp (s1 @ [NUL]) (s2 @ [NUL]) = Some 0) = (s1 = s2)"
  by (induction s1 arbitrary: s2; case_tac s2) auto

text \<open>
  Two buffers that first differ at index \<open>k\<close>, with no NUL before: the comparison gives the
  same result on the buffers cut off after index \<open>k\<close>, so it reads no byte beyond \<open>k\<close>.
\<close>

lemma strcmp_cut:
  "k < length b1 \<Longrightarrow> k < length b2 \<Longrightarrow> take k b1 = take k b2 \<Longrightarrow> b1 ! k \<noteq> b2 ! k \<Longrightarrow>
   NUL \<notin> set (take k b1) \<Longrightarrow>
   u_micro_tests_strcmp (take (Suc k) b1) (take (Suc k) b2) = u_micro_tests_strcmp b1 b2"
proof (induction k arbitrary: b1 b2)
  case 0
  then obtain c1 r1 c2 r2 where "b1 = c1 # r1" "b2 = c2 # r2"
    by (cases b1; cases b2) auto
  with 0 show ?case by simp
next
  case (Suc k)
  then obtain c1 r1 c2 r2 where b: "b1 = c1 # r1" "b2 = c2 # r2"
    by (cases b1; cases b2) auto
  with Suc.prems have "c1 = c2" "c1 \<noteq> NUL" "k < length r1" "k < length r2"
    "take k r1 = take k r2" "r1 ! k \<noteq> r2 ! k" "NUL \<notin> set (take k r1)"
    by auto
  with Suc.IH [of r1 r2] b show ?case by simp
qed

text \<open>
  Claim C6. On two NUL-terminated strings, \<open>_micro_tests_strcmp\<close> returns 0 exactly when
  the two contents are the same list of bytes (same length, same bytes). It never reads
  past a terminator: on buffers that end with their terminator it returns a value, where a
  read beyond a buffer would give \<open>None\<close>. It stops at the first mismatching byte: when
  the buffers first differ at index \<open>k\<close>, the buffers cut off after index \<open>k\<close> give the same
  result. The suite filter \<open>base\<close> passes over a descriptor of the suite \<open>base_tests\<close>.
\<close>

theorem strcmp_exact:
  assumes "NUL \<notin> set s1" and "NUL \<notin> set s2"
  shows "(u_micro_tests_strcmp (cstr s1) (cstr s2) = Some 0) = (s1 = s2)
       \<and> u_micro_tests_strcmp (cstr s1) (cstr s2) \<noteq> None
       \<and> (k < length (cstr s1) \<and> k < length (cstr s2) \<and> take k (cstr s1) = take k (cstr s2)
            \<and> cstr s1 ! k \<noteq> cstr s2 ! k \<longrightarrow>
          u_micro_tests_strcmp (take (Suc k) (cstr s1)) (take (Suc k) (cstr s2)) =
            u_micro_tests_strcmp (cstr s1) (cstr s2))
       \<and> filtered_out (micro_tests\<lparr> run_suite := Some ''base'' \<rparr>)
            (current\<lparr> test_suite := ''base_tests'' \<rparr>)"
proof (intro conjI impI)
  show "(u_micro_tests_strcmp (cstr s1) (cstr s2) = Some 0) = (s1 = s2)"
    using assms by (simp add: cstr_def strcmp_cstr_zero)
  show "u_micro_tests_strcmp (cstr s1) (cstr s2) \<noteq> None"
    by (simp add: cstr_def strcmp_cstr_defined)
  show "filtered_out (micro_tests\<lparr> run_suite := Some ''base'' \<rparr>)
            (current\<lparr> test_suite := ''base_tests'' \<rparr>)"
    by (simp add: filtered_out_def strcmp_names_def cstr_def)
next
  assume k: "k < length (cstr s1) \<and> k < length (cstr s2) \<and> take k (cstr s1) = take k (cstr s2)
            \<and> cstr s1 ! k \<noteq> cstr s2 ! k"
  then have "k \<le> length s1" by (simp add: cstr_def)
  then have "set (take k (cstr s1)) \<subseteq> set s1"
    by (simp add: cstr_def set_take_subset)
  with assms have "NUL \<notin> set (take k (cstr s1))" by blast
  with k show "u_micro_tests_strcmp (take (Suc k) (cstr s1)) (take (Suc k) (cstr s2)) =
            u_micro_tests_strcmp (cstr s1) (cstr s2)"
    by (intro strcmp_cut) simp_all
qed

theorem strcmp_exact_witness:
  "NUL \<notin> set ''base'' \<and> NUL \<notin> set ''base_tests''
   \<and> u_micro_tests_strcmp (cstr ''base'') (cstr ''base_tests'') \<noteq> Some 0
   \<and> u_micro_tests_strcmp (take 5 (cstr ''base'')) (take 5 (cstr ''base_tests'')) =
       u_micro_tests_strcmp (cstr ''base'') (cstr ''base_tests'')
   \<and> u_micro_tests_strcmp (cstr ''base'') (cstr ''base'') = Some 0"
proof -
  have h1: "NUL \<notin> set ''base''" and h2: "NUL \<notin> set ''base_tests''"
    by simp_all
  show ?thesis
    using h1 h2 strcmp_exact [OF h1 h2, of 4] strcmp_exact [OF h1 h1, of 0]
    by (simp add: cstr_def)
qed


section \<open>The sequential runner\<close>

text \<open>One iteration acts on a selected slot and leaves everything as it is otherwise.\<close>

lemma run_body_selected:
  assumes "selected micro_tests sec i"
  shows "u_micro_tests_run_body micro_tests sec i (out, st) =
           (out + fst (function_pointer (test_at sec i) (world st)),
            st\<lparr> world := snd (function_pointer (test_at sec i) (world st)),
                calls := calls st @ [(i, fst (function_pointer (test_at sec i) (world st)))],
                out_log := out_log st @
                  status_lines micro_tests sec (i, fst (function_pointer (test_at sec i) (world st))) \<rparr>)"
  using assms
  by (simp add: u_micro_tests_run_body_def selected_def Let_def status_lines_def emit_def)

lemma run_body_skipped:
  assumes "\<not> selected micro_tests sec i"
  shows "u_micro_tests_run_body micro_tests sec i acc = acc"
  using assms
  by (auto simp: u_micro_tests_run_body_def selected_def Let_def)

lemma run_loop_trace:
  "\<exists>new. calls (snd (u_micro_tests_run_loop micro_tests sec i (out, st))) = calls st @ new
       \<and> map fst new = filter (selected micro_tests sec) [i ..< micro_tests_count sec]
       \<and> out_log (snd (u_micro_tests_run_loop micro_tests sec i (out, st))) =
           out_log st @ concat (map (status_lines micro_tests sec) new)
       \<and> fst (u_micro_tests_run_loop micro_tests sec i (out, st)) = out + sum_list (map snd new)
       \<and> listed (snd (u_micro_tests_run_loop micro_tests sec i (out, st))) = listed st
       \<and> micro_tests_current (snd (u_micro_tests_run_loop micro_tests sec i (out, st))) =
           micro_tests_current st"
proof (induction "micro_tests_count sec - i" arbitrary: i out st)
  case 0
  then have "\<not> i < micro_tests_count sec" by simp
  then show ?case
    by (subst (1 2 3 4 5) u_micro_tests_run_loop.simps) simp
next
  case (Suc k)
  then have lt: "i < micro_tests_count sec" and k: "k = micro_tests_count sec - (i + 1)"
    by simp_all
  have upt: "[i ..< micro_tests_count sec] = i # [i + 1 ..< micro_tests_count sec]"
    using lt by (simp add: upt_rec)
  have unfold: "u_micro_tests_run_loop micro_tests sec i (out, st) =
      u_micro_tests_run_loop micro_tests sec (i + 1) (u_micro_tests_run_body micro_tests sec i (out, st))"
    using lt by (subst u_micro_tests_run_loop.simps) simp
  show ?case
  proof (cases "selected micro_tests sec i")
    case True
    define r where "r = fst (function_pointer (test_at sec i) (world st))"
    define st1 where "st1 = st\<lparr> world := snd (function_pointer (test_at sec i) (world st)),
                calls := calls st @ [(i, r)],
                out_log := out_log st @ status_lines micro_tests sec (i, r) \<rparr>"
    have body: "u_micro_tests_run_body micro_tests sec i (out, st) = (out + r, st1)"
      using run_body_selected [OF True] by (simp add: r_def st1_def)
    from Suc.hyps(1) [OF k, of "out + r" st1]
    obtain new where new:
      "calls (snd (u_micro_tests_run_loop micro_tests sec (i + 1) (out + r, st1))) = calls st1 @ new"
      "map fst new = filter (selected micro_tests sec) [i + 1 ..< micro_tests_count sec]"
      "out_log (snd (u_micro_tests_run_loop micro_tests sec (i + 1) (out + r, st1))) =
           out_log st1 @ concat (map (status_lines micro_tests sec) new)"
      "fst (u_micro_tests_run_loop micro_tests sec (i + 1) (out + r, st1)) = out + r + sum_list (map snd new)"
      "listed (snd (u_micro_tests_run_loop micro_tests sec (i + 1) (out + r, st1))) = listed st1"
      "micro_tests_current (snd (u_micro_tests_run_loop micro_tests sec (i + 1) (out + r, st1))) =
           micro_tests_current st1"
      by blast
    show ?thesis
      apply (rule exI [of _ "(i, r) # new"])
      using new True
      by (simp add: unfold body upt st1_def add.assoc)
  next
    case False
    from Suc.hyps(1) [OF k, of out st] show ?thesis
      using False by (simp add: unfold run_body_skipped upt)
  qed
qed

lemma run_trace:
  "\<exists>new. calls (snd (u_micro_tests_run micro_tests sec st)) = calls st @ new
       \<and> map fst new = filter (selected micro_tests sec) [0 ..< micro_tests_count sec]
       \<and> out_log (snd (u_micro_tests_run micro_tests sec st)) =
           out_log st @ concat (map (status_lines micro_tests sec) new) @
           (if quiet micro_tests then [] else [(Stdout, summary_line (sum_list (map snd new)))])
       \<and> fst (u_micro_tests_run micro_tests sec st) = - sum_list (map snd new)
       \<and> listed (snd (u_micro_tests_run micro_tests sec st)) = listed st
       \<and> micro_tests_current (snd (u_micro_tests_run micro_tests sec st)) = micro_tests_current st"
proof -
  from run_loop_trace [of micro_tests sec 0 0 st]
  obtain new where new:
      "calls (snd (u_micro_tests_run_loop micro_tests sec 0 (0, st))) = calls st @ new"
      "map fst new = filter (selected micro_tests sec) [0 ..< micro_tests_count sec]"
      "out_log (snd (u_micro_tests_run_loop micro_tests sec 0 (0, st))) =
           out_log st @ concat (map (status_lines micro_tests sec) new)"
      "fst (u_micro_tests_run_loop micro_tests sec 0 (0, st)) = 0 + sum_list (map snd new)"
      "listed (snd (u_micro_tests_run_loop micro_tests sec 0 (0, st))) = listed st"
      "micro_tests_current (snd (u_micro_tests_run_loop micro_tests sec 0 (0, st))) =
           micro_tests_current st"
    by blast
  show ?thesis
    apply (rule exI [of _ new])
    using new
    by (simp add: u_micro_tests_run_def Let_def emit_def)
qed


text \<open>The facts used to run the definitions on a concrete catalog.\<close>

lemmas run_eval = u_micro_tests_run_def u_micro_tests_run_loop.simps u_micro_tests_run_body_def
  micro_tests_count_def section_of_def sizeof_MicroTest_def TEST_def sentinel_def
  filtered_out_def strcmp_names_def cstr_def returning_def at_start_def emit_def Let_def
  micro_tests_defaults_def selected_def upt_conv_Cons


text \<open>
  The loop applies the callback of each selected slot to the program state left by the
  slots before it, and records the slot with the value returned.
\<close>

lemma run_loop_invokes:
  "calls (snd (u_micro_tests_run_loop micro_tests sec i (out, st))) =
     calls st @ fst (invoke_in_order sec
                       (filter (selected micro_tests sec) [i ..< micro_tests_count sec]) (world st))
   \<and> world (snd (u_micro_tests_run_loop micro_tests sec i (out, st))) =
     snd (invoke_in_order sec
            (filter (selected micro_tests sec) [i ..< micro_tests_count sec]) (world st))
   \<and> fst (u_micro_tests_run_loop micro_tests sec i (out, st)) =
     out + sum_list (map snd (fst (invoke_in_order sec
            (filter (selected micro_tests sec) [i ..< micro_tests_count sec]) (world st))))"
proof (induction "micro_tests_count sec - i" arbitrary: i out st)
  case 0
  then have "\<not> i < micro_tests_count sec" by simp
  then show ?case
    by (subst (1 2 3) u_micro_tests_run_loop.simps) simp
next
  case (Suc k)
  then have lt: "i < micro_tests_count sec" and k: "k = micro_tests_count sec - (i + 1)"
    by simp_all
  have upt: "[i ..< micro_tests_count sec] = i # [i + 1 ..< micro_tests_count sec]"
    using lt by (simp add: upt_rec)
  have unfold: "u_micro_tests_run_loop micro_tests sec i (out, st) =
      u_micro_tests_run_loop micro_tests sec (i + 1) (u_micro_tests_run_body micro_tests sec i (out, st))"
    using lt by (subst u_micro_tests_run_loop.simps) simp
  show ?case
  proof (cases "selected micro_tests sec i")
    case True
    define r where "r = fst (function_pointer (test_at sec i) (world st))"
    define st1 where "st1 = st\<lparr> world := snd (function_pointer (test_at sec i) (world st)),
                calls := calls st @ [(i, r)],
                out_log := out_log st @ status_lines micro_tests sec (i, r) \<rparr>"
    have body: "u_micro_tests_run_body micro_tests sec i (out, st) = (out + r, st1)"
      using run_body_selected [OF True] by (simp add: r_def st1_def)
    from Suc.hyps(1) [OF k, of "out + r" st1] True
    show ?thesis
      by (simp add: unfold body upt st1_def r_def Let_def add.assoc)
  next
    case False
    from Suc.hyps(1) [OF k, of out st] show ?thesis
      using False by (simp add: unfold run_body_skipped upt)
  qed
qed

lemma invoke_in_order_indices: "map fst (fst (invoke_in_order sec js w)) = js"
  by (induction js arbitrary: w) (simp_all add: Let_def)

text \<open>
  Claim C8. The sequential runner calls the callback of every index below
  \<open>(stop - start) / sizeof(MicroTest)\<close> whose slot is valid and passes the filters, each such
  index once and in increasing order, and no other: the invocations it adds to the trace,
  with the values returned, and the program state it leaves are those of calling these
  callbacks one after the other, each on the state left by the one before. The earlier
  invocations in the trace stay as they are.
\<close>

theorem sequential_run_order:
  "calls (snd (u_micro_tests_run micro_tests sec st)) =
     calls st @ fst (invoke_in_order sec
       (filter (selected micro_tests sec)
          [0 ..< (micro_tests_stop sec - micro_tests_start sec) div sizeof_MicroTest]) (world st))
   \<and> world (snd (u_micro_tests_run micro_tests sec st)) =
     snd (invoke_in_order sec
       (filter (selected micro_tests sec)
          [0 ..< (micro_tests_stop sec - micro_tests_start sec) div sizeof_MicroTest]) (world st))
   \<and> take (length (calls st)) (calls (snd (u_micro_tests_run micro_tests sec st))) = calls st
   \<and> map fst (drop (length (calls st)) (calls (snd (u_micro_tests_run micro_tests sec st)))) =
       filter (selected micro_tests sec)
         [0 ..< (micro_tests_stop sec - micro_tests_start sec) div sizeof_MicroTest]"
proof -
  from run_loop_invokes [of micro_tests sec 0 0 st]
  have "calls (snd (u_micro_tests_run micro_tests sec st)) =
     calls st @ fst (invoke_in_order sec
       (filter (selected micro_tests sec) [0 ..< micro_tests_count sec]) (world st))"
    and "world (snd (u_micro_tests_run micro_tests sec st)) =
     snd (invoke_in_order sec
       (filter (selected micro_tests sec) [0 ..< micro_tests_count sec]) (world st))"
    by (simp_all add: u_micro_tests_run_def Let_def emit_def)
  then show ?thesis
    by (simp add: micro_tests_count_def invoke_in_order_indices)
qed

theorem sequential_run_order_witness:
  "calls (snd (u_micro_tests_run micro_tests_defaults
       (section_of [TEST ''base_tests'' ''simple_assertion'' (recording 10 0),
                    TEST ''base_tests'' ''simple_assert_eq'' (recording 11 (- 1)),
                    TEST ''base_tests2'' ''simple_assert_not_eq'' (recording 12 0)])
       (started_with []))) = [(0, 0), (1, - 1), (2, 0)]
   \<and> world (snd (u_micro_tests_run micro_tests_defaults
       (section_of [TEST ''base_tests'' ''simple_assertion'' (recording 10 0),
                    TEST ''base_tests'' ''simple_assert_eq'' (recording 11 (- 1)),
                    TEST ''base_tests2'' ''simple_assert_not_eq'' (recording 12 0)])
       (started_with []))) = [10, 11, 12]
   \<and> world (snd (u_micro_tests_run (micro_tests_defaults\<lparr> run_suite := Some ''base_tests2'' \<rparr>)
       (section_of [TEST ''base_tests'' ''simple_assertion'' (recording 10 0),
                    TEST ''base_tests'' ''simple_assert_eq'' (recording 11 (- 1)),
                    TEST ''base_tests2'' ''simple_assert_not_eq'' (recording 12 0)])
       (started_with []))) = [12]"
proof -
  have sel: "filter (selected micro_tests_defaults
       (section_of [TEST ''base_tests'' ''simple_assertion'' (recording 10 0),
                    TEST ''base_tests'' ''simple_assert_eq'' (recording 11 (- 1)),
                    TEST ''base_tests2'' ''simple_assert_not_eq'' (recording 12 0)]))
      [0 ..< (micro_tests_stop (section_of [TEST ''base_tests'' ''simple_assertion'' (recording 10 0),
                    TEST ''base_tests'' ''simple_assert_eq'' (recording 11 (- 1)),
                    TEST ''base_tests2'' ''simple_assert_not_eq'' (recording 12 0)]) -
              micro_tests_start (section_of [TEST ''base_tests'' ''simple_assertion'' (recording 10 0),
                    TEST ''base_tests'' ''simple_assert_eq'' (recording 11 (- 1)),
                    TEST ''base_tests2'' ''simple_assert_not_eq'' (recording 12 0)])) div sizeof_MicroTest]
      = [0, 1, 2]"
    by (simp add: run_eval)
  have sel2: "filter (selected (micro_tests_defaults\<lparr> run_suite := Some ''base_tests2'' \<rparr>)
       (section_of [TEST ''base_tests'' ''simple_assertion'' (recording 10 0),
                    TEST ''base_tests'' ''simple_assert_eq'' (recording 11 (- 1)),
                    TEST ''base_tests2'' ''simple_assert_not_eq'' (recording 12 0)]))
      [0 ..< (micro_tests_stop (section_of [TEST ''base_tests'' ''simple_assertion'' (recording 10 0),
                    TEST ''base_tests'' ''simple_assert_eq'' (recording 11 (- 1)),
                    TEST ''base_tests2'' ''simple_assert_not_eq'' (recording 12 0)]) -
              micro_tests_start (section_of [TEST ''base_tests'' ''simple_assertion'' (recording 10 0),
                    TEST ''base_tests'' ''simple_assert_eq'' (recording 11 (- 1)),
                    TEST ''base_tests2'' ''simple_assert_not_eq'' (recording 12 0)])) div sizeof_MicroTest]
      = [2]"
    by (simp add: run_eval)
  show ?thesis
    using sequential_run_order [of micro_tests_defaults
       "section_of [TEST ''base_tests'' ''simple_assertion'' (recording 10 0),
                    TEST ''base_tests'' ''simple_assert_eq'' (recording 11 (- 1)),
                    TEST ''base_tests2'' ''simple_assert_not_eq'' (recording 12 0)]" "started_with []"]
      sequential_run_order [of "micro_tests_defaults\<lparr> run_suite := Some ''base_tests2'' \<rparr>"
       "section_of [TEST ''base_tests'' ''simple_assertion'' (recording 10 0),
                    TEST ''base_tests'' ''simple_assert_eq'' (recording 11 (- 1)),
                    TEST ''base_tests2'' ''simple_assert_not_eq'' (recording 12 0)]" "started_with []"]
    by (simp only: sel sel2)
       (simp add: started_with_def recording_def section_of_def TEST_def Let_def)
qed


section \<open>Listing mode and the claim function\<close>

lemma show_list_loop_trace:
  "listed (micro_tests_show_list_loop micro_tests sec i st) =
     listed st @ filter (selected micro_tests sec) [i ..< micro_tests_count sec]
   \<and> out_log (micro_tests_show_list_loop micro_tests sec i st) =
     out_log st @ map (\<lambda>j. (Stdout, list_line (test_at sec j)))
                    (filter (selected micro_tests sec) [i ..< micro_tests_count sec])
   \<and> calls (micro_tests_show_list_loop micro_tests sec i st) = calls st
   \<and> world (micro_tests_show_list_loop micro_tests sec i st) = world st
   \<and> micro_tests_current (micro_tests_show_list_loop micro_tests sec i st) = micro_tests_current st"
proof (induction "micro_tests_count sec - i" arbitrary: i st)
  case 0
  then have "\<not> i < micro_tests_count sec" by simp
  then show ?case
    by (subst (1 2 3 4 5) micro_tests_show_list_loop.simps) simp
next
  case (Suc k)
  then have lt: "i < micro_tests_count sec" and k: "k = micro_tests_count sec - (i + 1)"
    by simp_all
  have upt: "[i ..< micro_tests_count sec] = i # [i + 1 ..< micro_tests_count sec]"
    using lt by (simp add: upt_rec)
  have unfold: "micro_tests_show_list_loop micro_tests sec i st =
      micro_tests_show_list_loop micro_tests sec (i + 1) (micro_tests_show_list_body micro_tests sec i st)"
    using lt by (subst micro_tests_show_list_loop.simps) simp
  from Suc.hyps(1) [OF k, of "micro_tests_show_list_body micro_tests sec i st"]
  show ?case
    by (simp add: unfold upt) (simp add: micro_tests_show_list_body_def selected_def Let_def emit_def)
qed

lemma get_next_scan_selected:
  "get_next_scan micro_tests sec c = Some j \<Longrightarrow>
     c \<le> j \<and> j < micro_tests_count sec \<and> selected micro_tests sec j"
proof (induction micro_tests sec c rule: get_next_scan.induct)
  case (1 micro_tests sec i)
  show ?case
  proof (cases "i < micro_tests_count sec")
    case False
    with "1.prems" show ?thesis
      by (subst (asm) get_next_scan.simps) simp
  next
    case lt: True
    show ?thesis
    proof (cases "selected micro_tests sec i")
      case True
      with lt "1.prems" show ?thesis
        by (subst (asm) get_next_scan.simps) (auto simp: selected_def Let_def)
    next
      case False
      with lt "1.prems" have rest: "get_next_scan micro_tests sec (i + 1) = Some j"
        by (subst (asm) get_next_scan.simps) (auto simp: selected_def Let_def split: if_splits)
      show ?thesis
      proof (cases "marker (test_at sec i) = sentinel")
        case True
        with False have "filtered_out micro_tests (test_at sec i)" by (simp add: selected_def)
        from "1.IH"(1) [OF lt refl True this rest] show ?thesis by simp
      next
        case False
        from "1.IH"(2) [OF lt refl False rest] show ?thesis by simp
      qed
    qed
  qed
qed

lemmas list_eval = micro_tests_show_list_def micro_tests_show_list_loop.simps
  micro_tests_show_list_body_def

lemmas next_eval = u_micro_tests_get_next_test_def get_next_scan.simps


text \<open>
  Claim C7. A slot whose marker is not the sentinel is not among the invocations that the
  sequential runner adds, is not the slot that \<open>_micro_tests_get_next_test\<close> returns,
  whatever the cursor, and is not among the slots that listing mode prints. Nothing is
  assumed about the other fields of the slot. The instance below has a slot of padding
  between two registered tests.
\<close>

theorem invalid_slot_never_used:
  assumes "marker (test_at sec i) \<noteq> sentinel"
  shows "i \<notin> fst ` set (drop (length (calls st)) (calls (snd (u_micro_tests_run micro_tests sec st))))
       \<and> fst (u_micro_tests_get_next_test micro_tests sec st) \<noteq> Some i
       \<and> i \<notin> set (drop (length (listed st)) (listed (micro_tests_show_list micro_tests sec st)))"
proof (intro conjI)
  have not_sel: "\<not> selected micro_tests sec i"
    using assms by (simp add: selected_def)
  from run_trace [of micro_tests sec st]
  obtain new where new: "calls (snd (u_micro_tests_run micro_tests sec st)) = calls st @ new"
    "map fst new = filter (selected micro_tests sec) [0 ..< micro_tests_count sec]"
    by blast
  have "i \<notin> set (map fst new)"
    using not_sel by (simp add: new(2))
  then show "i \<notin> fst ` set (drop (length (calls st)) (calls (snd (u_micro_tests_run micro_tests sec st))))"
    by (simp add: new(1))
  show "fst (u_micro_tests_get_next_test micro_tests sec st) \<noteq> Some i"
    using not_sel get_next_scan_selected [of micro_tests sec "micro_tests_current st" i]
    by (auto simp: u_micro_tests_get_next_test_def split: option.splits dest: get_next_scan_selected)
  show "i \<notin> set (drop (length (listed st)) (listed (micro_tests_show_list micro_tests sec st)))"
    using not_sel show_list_loop_trace [of micro_tests sec 0 st]
    by (simp add: micro_tests_show_list_def)
qed

theorem invalid_slot_never_used_witness:
  "marker (test_at (section_of [TEST ''a'' ''first'' (returning 0),
                     (TEST ''a'' ''padding'' (returning 0))\<lparr> marker := 0 \<rparr>,
                     TEST ''a'' ''last'' (returning 0)]) 1) \<noteq> sentinel
   \<and> map fst (calls (snd (u_micro_tests_run micro_tests_defaults
         (section_of [TEST ''a'' ''first'' (returning 0),
                     (TEST ''a'' ''padding'' (returning 0))\<lparr> marker := 0 \<rparr>,
                     TEST ''a'' ''last'' (returning 0)]) at_start))) = [0, 2]
   \<and> fst (u_micro_tests_get_next_test micro_tests_defaults
         (section_of [TEST ''a'' ''first'' (returning 0),
                     (TEST ''a'' ''padding'' (returning 0))\<lparr> marker := 0 \<rparr>,
                     TEST ''a'' ''last'' (returning 0)]) at_start) = Some 0
   \<and> listed (micro_tests_show_list micro_tests_defaults
         (section_of [TEST ''a'' ''first'' (returning 0),
                     (TEST ''a'' ''padding'' (returning 0))\<lparr> marker := 0 \<rparr>,
                     TEST ''a'' ''last'' (returning 0)]) at_start) = [0, 2]"
proof -
  have h: "marker (test_at (section_of [TEST ''a'' ''first'' (returning 0),
                     (TEST ''a'' ''padding'' (returning 0))\<lparr> marker := 0 \<rparr>,
                     TEST ''a'' ''last'' (returning 0)]) 1) \<noteq> sentinel"
    by (simp add: run_eval)
  show ?thesis
    using h invalid_slot_never_used [OF h, where st = at_start and micro_tests = micro_tests_defaults]
    by (simp add: run_eval list_eval next_eval)
qed



section \<open>What the sequential runner prints and returns\<close>

lemmas text_eval = failed_line_def ok_line_def summary_line_def show_int_def digit_char_def
  status_lines_def list_line_def word_sless_alt


text \<open>
  Claim C4, as stated, fails: it has the summary line printed in quiet mode too. With
  \<open>quiet\<close> set, one passing test is executed and the run prints nothing at all.
\<close>

theorem quiet_run_prints_no_summary:
  "quiet (micro_tests_defaults\<lparr> quiet := True \<rparr>)
   \<and> calls (snd (u_micro_tests_run (micro_tests_defaults\<lparr> quiet := True \<rparr>)
        (section_of [TEST ''base_tests'' ''simple_assertion'' (returning 0)]) at_start)) = [(0, 0)]
   \<and> out_log (snd (u_micro_tests_run (micro_tests_defaults\<lparr> quiet := True \<rparr>)
        (section_of [TEST ''base_tests'' ''simple_assertion'' (returning 0)]) at_start)) = []"
  by (simp add: run_eval)


text \<open>
  Claim C4, amended. The sequential runner appends to the output, for every test it
  executes and in the order of execution, a FAILED line on the error stream when the
  callback returned a negative value (quiet or not), and otherwise an OK line on the
  standard output unless quiet mode is set; after the scan it appends the summary line,
  with the total it returns and \<open>test\<close> for a total of 1 and \<open>tests\<close> otherwise, only when
  quiet mode is not set. In quiet mode no summary line is printed.
\<close>

theorem sequential_run_output:
  "out_log (snd (u_micro_tests_run micro_tests sec st)) =
     out_log st @
     concat (map (status_lines micro_tests sec)
               (drop (length (calls st)) (calls (snd (u_micro_tests_run micro_tests sec st))))) @
     (if quiet micro_tests then []
      else [(Stdout, [nl] @ ''Tests done: '' @
                     show_int (sint (fst (u_micro_tests_run micro_tests sec st))) @ '' '' @
                     (if fst (u_micro_tests_run micro_tests sec st) = 1 then ''test'' else ''tests'') @
                     '' failed'' @ [nl, nl])])"
proof -
  from run_trace [of micro_tests sec st]
  obtain new where new: "calls (snd (u_micro_tests_run micro_tests sec st)) = calls st @ new"
    "out_log (snd (u_micro_tests_run micro_tests sec st)) =
           out_log st @ concat (map (status_lines micro_tests sec) new) @
           (if quiet micro_tests then [] else [(Stdout, summary_line (sum_list (map snd new)))])"
    "fst (u_micro_tests_run micro_tests sec st) = - sum_list (map snd new)"
    by blast
  have one: "(- x = 1) = (x = - 1)" for x :: c_int
    by (metis add.inverse_inverse)
  show ?thesis
    by (simp add: new summary_line_def one)
qed

theorem sequential_run_output_witness:
  "out_log (snd (u_micro_tests_run micro_tests_defaults
        (section_of [TEST ''a'' ''fails'' (returning (- 1)), TEST ''a'' ''passes'' (returning 0)])
        at_start)) =
     [(Stderr, ''suite: a, test: fails FAILED'' @ [nl]),
      (Stdout, ''suite: a, test: passes OK'' @ [nl]),
      (Stdout, [nl] @ ''Tests done: 1 test failed'' @ [nl, nl])]
   \<and> out_log (snd (u_micro_tests_run (micro_tests_defaults\<lparr> quiet := True \<rparr>)
        (section_of [TEST ''a'' ''fails'' (returning (- 1)), TEST ''a'' ''passes'' (returning 0)])
        at_start)) =
     [(Stderr, ''suite: a, test: fails FAILED'' @ [nl])]"
  using sequential_run_output [of micro_tests_defaults
        "section_of [TEST ''a'' ''fails'' (returning (- 1)), TEST ''a'' ''passes'' (returning 0)]" at_start]
    sequential_run_output [of "micro_tests_defaults\<lparr> quiet := True \<rparr>"
        "section_of [TEST ''a'' ''fails'' (returning (- 1)), TEST ''a'' ''passes'' (returning 0)]" at_start]
  by (simp add: run_eval text_eval)


text \<open>
  Claim C3 against the code. The loop adds every return value to \<open>out\<close>, the positive ones
  too. A single test that returns 3 is reported OK and the runner returns \<open>-3\<close>; a test
  that returns \<open>-1\<close> followed by one that returns 1 gives the total 0 although a test failed.
\<close>

theorem positive_return_lowers_count:
  "sint (fst (u_micro_tests_run micro_tests_defaults
        (section_of [TEST ''a'' ''passes'' (returning 3)]) at_start)) = - 3
   \<and> out_log (snd (u_micro_tests_run micro_tests_defaults
        (section_of [TEST ''a'' ''passes'' (returning 3)]) at_start)) =
     [(Stdout, ''suite: a, test: passes OK'' @ [nl]),
      (Stdout, [nl] @ ''Tests done: -3 tests failed'' @ [nl, nl])]
   \<and> fst (u_micro_tests_run micro_tests_defaults
        (section_of [TEST ''a'' ''fails'' (returning (- 1)), TEST ''a'' ''passes'' (returning 1)])
        at_start) = 0"
  by (simp add: run_eval text_eval)



section \<open>The concurrent runner\<close>

text \<open>The conversion of the \<open>long\<close> total to \<open>int\<close> on negative values.\<close>

lemma ucast_long_int_of_int: "ucast (word_of_int i :: c_long) = (word_of_int i :: c_int)"
  by (rule bit_word_eqI) (auto simp: bit_ucast_iff bit_word_of_int_iff)

lemma ucast_long_int_m1: "ucast (- 1 :: c_long) = (- 1 :: c_int)"
  using ucast_long_int_of_int [of "- 1"] by simp

lemma ucast_long_int_neg: "ucast (- numeral k :: c_long) = (- numeral k :: c_int)"
  using ucast_long_int_of_int [of "- numeral k"] by simp

lemmas mt_eval = ucast_long_int_neg ucast_long_int_m1 u_micro_tests_run_multithreaded_def run_schedule.simps join_workers.simps
  run_worker.simps worker_step_def thread_failed_line_def summary_line_mt_def
  u_micro_tests_thread_def


text \<open>
  Claim C1 against the code. On a match at index \<open>i\<close> the claim function executes
  \<open>micro_tests_current++\<close>; it does not set the cursor to \<open>i + 1\<close>. With the suite filter
  \<open>base_tests2\<close> and a catalog whose second slot is the only match, the first call returns
  slot 1 and leaves the cursor at 1, the next call returns slot 1 again, and a run with one
  worker invokes the callback of slot 1 twice.
\<close>

theorem claim_returns_same_slot_twice:
  "u_micro_tests_get_next_test (micro_tests_defaults\<lparr> run_suite := Some ''base_tests2'' \<rparr>)
     (section_of [TEST ''base_tests'' ''simple_assertion'' (returning 0),
                  TEST ''base_tests2'' ''simple_assert_not_eq'' (returning 0)])
     at_start = (Some 1, at_start\<lparr> micro_tests_current := 1 \<rparr>)
   \<and> u_micro_tests_get_next_test (micro_tests_defaults\<lparr> run_suite := Some ''base_tests2'' \<rparr>)
     (section_of [TEST ''base_tests'' ''simple_assertion'' (returning 0),
                  TEST ''base_tests2'' ''simple_assert_not_eq'' (returning 0)])
     (at_start\<lparr> micro_tests_current := 1 \<rparr>) = (Some 1, at_start\<lparr> micro_tests_current := 2 \<rparr>)
   \<and> calls (snd (u_micro_tests_run_multithreaded
        (micro_tests_defaults\<lparr> run_suite := Some ''base_tests2'', thread_number := 1 \<rparr>)
        (section_of [TEST ''base_tests'' ''simple_assertion'' (returning 0),
                     TEST ''base_tests2'' ''simple_assert_not_eq'' (returning 0)])
        [] at_start)) = [(1, 0), (1, 0)]"
  by (simp add: run_eval next_eval mt_eval)



text \<open>
  Claim C2 against the code. \<open>_micro_tests_run\<close> returns \<open>-out\<close> and
  \<open>_micro_tests_run_multithreaded\<close> returns \<open>ret\<close> without the negation. On a catalog with
  one test that fails, without filters, the sequential runner returns 1 and the concurrent
  runner with one worker returns \<open>-1\<close>, after the same single invocation.
\<close>

theorem runners_disagree_on_one_failure:
  "fst (u_micro_tests_run micro_tests_defaults
         (section_of [TEST ''a'' ''fails'' (returning (- 1))]) at_start) = 1
   \<and> fst (u_micro_tests_run_multithreaded (micro_tests_defaults\<lparr> thread_number := 1 \<rparr>)
         (section_of [TEST ''a'' ''fails'' (returning (- 1))]) [] at_start) = - 1
   \<and> calls (snd (u_micro_tests_run_multithreaded (micro_tests_defaults\<lparr> thread_number := 1 \<rparr>)
         (section_of [TEST ''a'' ''fails'' (returning (- 1))]) [] at_start)) = [(0, - 1)]"
  by (simp add: run_eval text_eval next_eval mt_eval)


text \<open>
  With a filter the repeated claims of the cursor add to the difference: the one failing
  test is counted twice by the concurrent runner.
\<close>

lemma runners_disagree_under_filter:
  "fst (u_micro_tests_run (micro_tests_defaults\<lparr> run_test := Some ''second'' \<rparr>)
         (section_of [TEST ''a'' ''first'' (returning 0), TEST ''a'' ''second'' (returning (- 1))])
         at_start) = 1
   \<and> fst (u_micro_tests_run_multithreaded
         (micro_tests_defaults\<lparr> run_test := Some ''second'', thread_number := 1 \<rparr>)
         (section_of [TEST ''a'' ''first'' (returning 0), TEST ''a'' ''second'' (returning (- 1))])
         [] at_start) = - 2"
  by (simp add: run_eval text_eval next_eval mt_eval)









section \<open>The arguments and the entry point\<close>

text \<open>
  The three shapes of an argument: a flag on its own, an option that takes the next argument
  (where the step can fail), and anything else.
\<close>

lemma parse_args_loop_shape:
  obtains (flag) f where
      "\<And>rest m (st :: 's run_state).
         parse_args_loop mt (a # rest) m st = parse_args_loop mt rest (f m) st"
    | (valued) h where
      "\<And>m (st :: 's run_state). \<exists>msgs.
         parse_args_loop mt [a] m st = (- 1, m, st\<lparr> out_log := out_log st @ msgs \<rparr>)"
      "\<And>v rest m (st :: 's run_state).
         parse_args_loop mt (a # v # rest) m st =
           (case h v m of
              Inr m1 \<Rightarrow> parse_args_loop mt rest m1 st
            | Inl (m1, msgs) \<Rightarrow> (- 1, m1, st\<lparr> out_log := out_log st @ msgs \<rparr>))"
    | (unknown)
      "\<And>rest m (st :: 's run_state). \<exists>msgs.
         parse_args_loop mt (a # rest) m st = (- 1, m, st\<lparr> out_log := out_log st @ msgs \<rparr>)"
proof -
  define H where "H = (strcmp_names a ''--help'' = Some 0 \<or> strcmp_names a ''-h'' = Some 0)"
  define L where "L = (strcmp_names a ''--list'' = Some 0)"
  define S where "S = (strcmp_names a ''--suite'' = Some 0)"
  define T where "T = (strcmp_names a ''--test'' = Some 0)"
  define B where "B = (strcmp_names a ''--no-banner'' = Some 0)"
  define D where "D = (strcmp_names a ''--debug'' = Some 0)"
  define Q where "Q = (strcmp_names a ''--quiet'' = Some 0)"
  define M where "M = (mt \<and> strcmp_names a ''--multithreaded'' = Some 0)"
  define N where "N = (mt \<and> strcmp_names a ''--threads'' = Some 0)"
  note defs = H_def L_def S_def T_def B_def D_def Q_def M_def N_def
  consider (h) H | (l) "\<not> H" L | (s) "\<not> H" "\<not> L" S | (t) "\<not> H" "\<not> L" "\<not> S" T
    | (b) "\<not> H" "\<not> L" "\<not> S" "\<not> T" B | (d) "\<not> H" "\<not> L" "\<not> S" "\<not> T" "\<not> B" D
    | (q) "\<not> H" "\<not> L" "\<not> S" "\<not> T" "\<not> B" "\<not> D" Q
    | (m) "\<not> H" "\<not> L" "\<not> S" "\<not> T" "\<not> B" "\<not> D" "\<not> Q" M
    | (n) "\<not> H" "\<not> L" "\<not> S" "\<not> T" "\<not> B" "\<not> D" "\<not> Q" "\<not> M" N
    | (u) "\<not> H" "\<not> L" "\<not> S" "\<not> T" "\<not> B" "\<not> D" "\<not> Q" "\<not> M" "\<not> N"
    by blast
  then show thesis
  proof cases
    case h
    then show thesis
      unfolding defs by (intro flag [of "\<lambda>m. m\<lparr> print_help := True \<rparr>"]) simp
  next
    case l
    then show thesis
      unfolding defs by (intro flag [of "\<lambda>m. m\<lparr> show_list := True \<rparr>"]) simp
  next
    case s
    then show thesis
      unfolding defs
      by (intro valued [of "\<lambda>v m. Inr (m\<lparr> run_suite := Some v \<rparr>)"]) (auto simp: emit_def)
  next
    case t
    then show thesis
      unfolding defs
      by (intro valued [of "\<lambda>v m. Inr (m\<lparr> run_test := Some v \<rparr>)"]) (auto simp: emit_def)
  next
    case b
    then show thesis
      unfolding defs by (intro flag [of "\<lambda>m. m\<lparr> print_banner := False \<rparr>"]) simp
  next
    case d
    then show thesis
      unfolding defs by (intro flag [of "\<lambda>m. m\<lparr> debug := True \<rparr>"]) simp
  next
    case q
    then show thesis
      unfolding defs by (intro flag [of "\<lambda>m. m\<lparr> quiet := True \<rparr>"]) simp
  next
    case m
    then show thesis
      unfolding defs by (intro flag [of "\<lambda>m. m\<lparr> run_multithreaded := True \<rparr>"]) simp
  next
    case n
    then show thesis
      unfolding defs
      by (intro valued [of "\<lambda>v m.
                if atoi v \<le>s 0
                then Inl (m\<lparr> thread_number := atoi v \<rparr>,
                          [(Stderr, ''Error: Thread number '' @ v @
                                    '' must be an integer and positive number'')])
                else Inr (m\<lparr> thread_number := atoi v \<rparr>)"])
         (auto simp: emit_def Let_def split: if_splits)
  next
    case u
    then show thesis
      unfolding defs by (intro unknown) (auto simp: emit_def)
  qed
qed


lemma parse_args_loop_frame:
  "parse_args_loop mt args micro_tests st = (r, micro_tests1, st1) \<Longrightarrow>
     (\<exists>msgs. st1 = st\<lparr> out_log := out_log st @ msgs \<rparr>)
     \<and> (r = 0 \<longrightarrow> st1 = st)
     \<and> (r = 0 \<or> r = - 1)"
proof (induction "length args" arbitrary: args micro_tests rule: less_induct)
  case less
  note parse_args_loop.simps [simp del]
  show ?case
  proof (cases args)
    case Nil
    with less.prems have "r = 0" "st1 = st" by (simp_all add: parse_args_loop.simps(1))
    then show ?thesis by (auto intro: exI [of _ "[]"])
  next
    case (Cons a rest)
    show ?thesis
    proof (cases rule: parse_args_loop_shape [where mt = mt and a = a and ?'s = 'a])
      case (flag f)
      from less.prems have "parse_args_loop mt rest (f micro_tests) st = (r, micro_tests1, st1)"
        by (simp only: Cons flag)
      with less.hyps [of rest "f micro_tests"] Cons show ?thesis by simp
    next
      case (valued h)
      show ?thesis
      proof (cases rest)
        case Nil
        from valued(1) [of micro_tests st] obtain msgs where
          "parse_args_loop mt [a] micro_tests st =
             (- 1, micro_tests, st\<lparr> out_log := out_log st @ msgs \<rparr>)"
          by blast
        with less.prems Cons Nil show ?thesis by auto
      next
        case rest: (Cons v rest1)
        show ?thesis
        proof (cases "h v micro_tests")
          case (Inl res)
          obtain m0 msgs where res: "res = (m0, msgs)" by (cases res)
          from less.prems have "r = - 1" "st1 = st\<lparr> out_log := out_log st @ msgs \<rparr>"
            by (simp_all add: Cons rest valued(2) Inl res)
          then show ?thesis by auto
        next
          case (Inr m1)
          from less.prems have "parse_args_loop mt rest1 m1 st = (r, micro_tests1, st1)"
            by (simp add: Cons rest valued(2) Inr)
          with less.hyps [of rest1 m1] Cons rest show ?thesis by simp
        qed
      qed
    next
      case unknown
      from unknown [of rest micro_tests st] obtain msgs where
        "parse_args_loop mt (a # rest) micro_tests st =
           (- 1, micro_tests, st\<lparr> out_log := out_log st @ msgs \<rparr>)"
        by blast
      with less.prems Cons show ?thesis by auto
    qed
  qed
qed









lemmas parse_eval = micro_tests_parse_args_def strcmp_names_def cstr_def micro_tests_defaults_def
  at_start_def emit_def atoi_def strtol10_def isspace_def isdigit_def Let_def word_sle_eq word_sless_alt








text \<open>The help text goes to the standard output and changes nothing else.\<close>

lemma print_help_trace:
  "calls (micro_tests_print_help mt st) = calls st
   \<and> world (micro_tests_print_help mt st) = world st
   \<and> take (length (out_log st)) (out_log (micro_tests_print_help mt st)) = out_log st
   \<and> list_all (\<lambda>e. fst e = Stdout)
         (drop (length (out_log st)) (out_log (micro_tests_print_help mt st)))
   \<and> out_log (micro_tests_print_help mt st) \<noteq> out_log st"
  by (cases mt) (simp_all add: micro_tests_print_help_def emit_def)


text \<open>
  Claim C9. When the arguments parse without error and the settings select help mode or
  listing mode, \<open>micro_tests_run\<close> returns 0, invokes no callback and leaves the program
  state alone, and all that it prints goes to the standard output: the help text in help
  mode (which has precedence), and otherwise one line for each valid slot that passes the
  filters, in catalog order.
\<close>

theorem list_and_help_modes:
  assumes "micro_tests_parse_args mt argv st = (r, micro_tests, st1)"
    and "\<not> r <s 0"
    and "print_help micro_tests \<or> show_list micro_tests"
  shows "\<exists>st2. micro_tests_run mt sched sec argv st = (0, st2)
          \<and> calls st2 = calls st \<and> world st2 = world st
          \<and> take (length (out_log st)) (out_log st2) = out_log st
          \<and> list_all (\<lambda>e. fst e = Stdout) (drop (length (out_log st)) (out_log st2))
          \<and> (if print_help micro_tests
              then st2 = micro_tests_print_help mt st \<and> out_log st2 \<noteq> out_log st
              else drop (length (out_log st)) (out_log st2) =
                     map (\<lambda>j. (Stdout, list_line (test_at sec j)))
                       (filter (selected micro_tests sec) [0 ..< micro_tests_count sec]))"
proof -
  from parse_args_loop_frame [OF assms(1) [unfolded micro_tests_parse_args_def]] assms(2)
  have r: "r = 0" and st1: "st1 = st"
    by (auto simp: word_sless_alt)
  show ?thesis
  proof (cases "print_help micro_tests")
    case True
    have "micro_tests_run mt sched sec argv st = (0, micro_tests_print_help mt st)"
      using True by (simp add: micro_tests_run_def assms(1) r st1)
    with True print_help_trace [of mt st] show ?thesis by simp
  next
    case False
    with assms(3) have "show_list micro_tests" by simp
    with False have run: "micro_tests_run mt sched sec argv st =
        (0, micro_tests_show_list micro_tests sec st)"
      by (simp add: micro_tests_run_def assms(1) r st1)
    from show_list_loop_trace [of micro_tests sec 0 st] False run show ?thesis
      by (simp add: micro_tests_show_list_def list_all_iff)
  qed
qed

theorem list_and_help_modes_witness:
  "micro_tests_parse_args True [''prog'', ''--list'', ''--suite'', ''base_tests2''] at_start =
     (0, micro_tests_defaults\<lparr> show_list := True, run_suite := Some ''base_tests2'' \<rparr>, at_start)
   \<and> (\<exists>st2. micro_tests_run True []
        (section_of [TEST ''base_tests'' ''simple_assertion'' (returning (- 1)),
                     TEST ''base_tests2'' ''simple_assert_not_eq'' (returning (- 1))])
        [''prog'', ''--list'', ''--suite'', ''base_tests2''] at_start = (0, st2)
        \<and> calls st2 = []
        \<and> out_log st2 = [(Stdout, ''suite: base_tests2, test: simple_assert_not_eq'' @ [nl])])
   \<and> micro_tests_parse_args True [''prog'', ''-h''] at_start =
     (0, micro_tests_defaults\<lparr> print_help := True \<rparr>, at_start)
   \<and> (\<exists>st2. micro_tests_run True []
        (section_of [TEST ''base_tests'' ''simple_assertion'' (returning (- 1))])
        [''prog'', ''-h''] at_start = (0, st2) \<and> calls st2 = [] \<and> out_log st2 \<noteq> [])"
proof -
  have p1: "micro_tests_parse_args True [''prog'', ''--list'', ''--suite'', ''base_tests2''] at_start =
     (0, micro_tests_defaults\<lparr> show_list := True, run_suite := Some ''base_tests2'' \<rparr>, at_start)"
    by (simp add: parse_eval)
  have p2: "micro_tests_parse_args True [''prog'', ''-h''] at_start =
     (0, micro_tests_defaults\<lparr> print_help := True \<rparr>, at_start)"
    by (simp add: parse_eval)
  have nn: "\<not> (0 :: c_int) <s 0" by simp
  have sel: "filter (selected (micro_tests_defaults\<lparr> show_list := True, run_suite := Some ''base_tests2'' \<rparr>)
        (section_of [TEST ''base_tests'' ''simple_assertion'' (returning (- 1)),
                     TEST ''base_tests2'' ''simple_assert_not_eq'' (returning (- 1))]))
      [0 ..< micro_tests_count (section_of [TEST ''base_tests'' ''simple_assertion'' (returning (- 1)),
                     TEST ''base_tests2'' ''simple_assert_not_eq'' (returning (- 1))])] = [1]"
    by (simp add: run_eval)
  have line: "list_line (test_at (section_of [TEST ''base_tests'' ''simple_assertion'' (returning (- 1)),
                     TEST ''base_tests2'' ''simple_assert_not_eq'' (returning (- 1))]) 1) =
       ''suite: base_tests2, test: simple_assert_not_eq'' @ [nl]"
    by (simp add: list_line_def section_of_def TEST_def)
  have start: "calls at_start = []" "out_log at_start = []"
    by (simp_all add: at_start_def)
  have shown: "\<not> print_help (micro_tests_defaults\<lparr> show_list := True, run_suite := Some ''base_tests2'' \<rparr>)"
     "show_list (micro_tests_defaults\<lparr> show_list := True, run_suite := Some ''base_tests2'' \<rparr>)"
     "print_help (micro_tests_defaults\<lparr> print_help := True \<rparr>)"
    by (simp_all add: micro_tests_defaults_def)
  have m1: "print_help (micro_tests_defaults\<lparr> show_list := True, run_suite := Some ''base_tests2'' \<rparr>)
      \<or> show_list (micro_tests_defaults\<lparr> show_list := True, run_suite := Some ''base_tests2'' \<rparr>)"
    and m2: "print_help (micro_tests_defaults\<lparr> print_help := True \<rparr>)
      \<or> show_list (micro_tests_defaults\<lparr> print_help := True \<rparr>)"
    by (simp_all add: micro_tests_defaults_def)
  have "\<exists>st2. micro_tests_run True []
        (section_of [TEST ''base_tests'' ''simple_assertion'' (returning (- 1)),
                     TEST ''base_tests2'' ''simple_assert_not_eq'' (returning (- 1))])
        [''prog'', ''--list'', ''--suite'', ''base_tests2''] at_start = (0, st2)
        \<and> calls st2 = []
        \<and> out_log st2 = [(Stdout, ''suite: base_tests2, test: simple_assert_not_eq'' @ [nl])]"
    using list_and_help_modes [OF p1 nn m1, where sched = "[]"
        and sec = "section_of [TEST ''base_tests'' ''simple_assertion'' (returning (- 1)),
                     TEST ''base_tests2'' ''simple_assert_not_eq'' (returning (- 1))]"]
    by (simp only: shown sel line start list.map if_False simp_thms list.size drop_0) blast
  moreover have "\<exists>st2. micro_tests_run True []
        (section_of [TEST ''base_tests'' ''simple_assertion'' (returning (- 1))])
        [''prog'', ''-h''] at_start = (0, st2) \<and> calls st2 = [] \<and> out_log st2 \<noteq> []"
    using list_and_help_modes [OF p2 nn m2, where sched = "[]"
        and sec = "section_of [TEST ''base_tests'' ''simple_assertion'' (returning (- 1))]"]
    by (simp only: shown start if_True simp_thms) blast
  ultimately show ?thesis
    using p1 p2 by (intro conjI)
qed



end
